theory Spec2Isabelle
  imports Complex_Main "HOL-Library.Sublist"
begin

section \<open>Data model of \<open>page.tsx\<close>\<close>

text \<open>
  Strings are lists of 8-bit characters: a \<^typ>\<open>char\<close> stands for a UTF-16 code unit
  below 256, which covers every character the page's functions test for
  (quote, comma, line feed, carriage return, \<open>=\<close>, \<open>:\<close>, white space).

  \<^verbatim>\<open>type Field = { id: string; label: string; type: FieldType }\<close>.
  The field \<open>id\<close> is written \<open>id_f\<close>, the state cell \<open>fields\<close> is written \<open>fields_st\<close>.
\<close>

datatype FieldType = Text | Email | Tel | Date | Number | Textarea

record Field =
  id_f :: string
  label :: string
  type :: FieldType

text \<open>
  \<^verbatim>\<open>type Entry = Record<string, string>\<close>: a plain object. It is modelled by the list of
  its own enumerable properties, in the order \<^verbatim>\<open>Object.keys\<close> lists them; a new key goes to
  the end. (JavaScript lists integer-like keys first; no statement below depends on
  the position of a key.) Every plain object inherits the properties of
  \<^verbatim>\<open>Object.prototype\<close>, whose names the language standard fixes.
\<close>

type_synonym Entry = "(string \<times> string) list"

definition object_prototype_names :: "string list" where
  "object_prototype_names =
     [''constructor'', ''__defineGetter__'', ''__defineSetter__'', ''hasOwnProperty'',
      ''__lookupGetter__'', ''__lookupSetter__'', ''isPrototypeOf'',
      ''propertyIsEnumerable'', ''toString'', ''valueOf'', ''__proto__'',
      ''toLocaleString'']"

definition object_keys :: "Entry \<Rightarrow> string list" where
  \<comment> \<open>\<^verbatim>\<open>Object.keys(o)\<close>\<close>
  "object_keys obj = map fst obj"

definition has_in :: "string \<Rightarrow> Entry \<Rightarrow> bool" where
  \<comment> \<open>\<^verbatim>\<open>k in o\<close>: own or inherited\<close>
  "has_in k obj = (k \<in> set (object_keys obj) \<or> k \<in> set object_prototype_names)"

datatype jsread = Undefined | Str string | Inherited

definition get_prop :: "Entry \<Rightarrow> string \<Rightarrow> jsread" where
  \<comment> \<open>\<^verbatim>\<open>o[k]\<close>: the own value, else the inherited member (a function or an object,
      never a string), else \<^verbatim>\<open>undefined\<close>\<close>
  "get_prop obj k =
     (case map_of obj k of
        Some v \<Rightarrow> Str v
      | None \<Rightarrow> if k \<in> set object_prototype_names then Inherited else Undefined)"

fun define_prop :: "string \<Rightarrow> string \<Rightarrow> Entry \<Rightarrow> Entry" where
  \<comment> \<open>an own property defined by an object literal, a spread or \<^verbatim>\<open>Object.fromEntries\<close>\<close>
  "define_prop k v [] = [(k, v)]"
| "define_prop k v (p # ps) = (if fst p = k then (k, v) # ps else p # define_prop k v ps)"

definition assign_prop :: "string \<Rightarrow> string \<Rightarrow> Entry \<Rightarrow> Entry" where
  \<comment> \<open>\<^verbatim>\<open>o[k] = v\<close>: as \<open>define_prop\<close>, but the inherited setter \<^verbatim>\<open>__proto__\<close> ignores a string\<close>
  "assign_prop k v obj =
     (if k \<notin> set (object_keys obj) \<and> k = ''__proto__'' then obj else define_prop k v obj)"

definition delete_prop :: "string \<Rightarrow> Entry \<Rightarrow> Entry" where
  \<comment> \<open>\<^verbatim>\<open>delete o[k]\<close>\<close>
  "delete_prop k obj = filter (\<lambda>p. fst p \<noteq> k) obj"

definition fromEntries :: "(string \<times> string) list \<Rightarrow> Entry" where
  \<comment> \<open>\<^verbatim>\<open>Object.fromEntries(pairs)\<close>\<close>
  "fromEntries ps = foldl (\<lambda>obj (k, v). define_prop k v obj) [] ps"

section \<open>The store: the three state cells of \<open>Home\<close>\<close>

text \<open>
  \<^verbatim>\<open>useState\<close> cells \<open>fields\<close>, \<open>entry\<close> (the draft) and \<open>entries\<close> (the saved list).
  The element types are parameters: TypeScript's annotations are erased at run time, and
  \<open>importJSON\<close> stores whatever arrays the file holds.
\<close>

record ('f, 'e) Store =
  fields_st :: "'f list"
  entry :: Entry
  entries :: "'e list"

type_synonym AppState = "(Field, Entry) Store"

definition DEFAULT_FIELDS :: "Field list" where
  "DEFAULT_FIELDS =
     [\<lparr>id_f = ''name'', label = ''???'', type = Text\<rparr>,
      \<lparr>id_f = ''email'', label = ''????'', type = Email\<rparr>,
      \<lparr>id_f = ''phone'', label = ''????'', type = Tel\<rparr>,
      \<lparr>id_f = ''address'', label = ''???'', type = Textarea\<rparr>,
      \<lparr>id_f = ''date'', label = ''?????'', type = Date\<rparr>]"

definition initial_store :: AppState where
  \<comment> \<open>the initial values of the three \<^verbatim>\<open>useState\<close> cells\<close>
  "initial_store =
     \<lparr>fields_st = DEFAULT_FIELDS,
      entry = foldl (\<lambda>obj f. assign_prop (id_f f) [] obj) [] DEFAULT_FIELDS,
      entries = []\<rparr>"

definition add_missing_key :: "Entry \<Rightarrow> Field \<Rightarrow> Entry" where
  \<comment> \<open>\<^verbatim>\<open>if (!(f.id in next)) next[f.id] = ""\<close>\<close>
  "add_missing_key nxt f = (if \<not> has_in (id_f f) nxt then assign_prop (id_f f) [] nxt else nxt)"

definition drop_stale_key :: "Field list \<Rightarrow> Entry \<Rightarrow> string \<Rightarrow> Entry" where
  \<comment> \<open>\<^verbatim>\<open>if (!fields.find((f) => f.id === k)) delete next[k]\<close>\<close>
  "drop_stale_key fs nxt k = (if find (\<lambda>f. id_f f = k) fs = None then delete_prop k nxt else nxt)"

definition ensure_entry_keys :: "Field list \<Rightarrow> Entry \<Rightarrow> Entry" where
  \<comment> \<open>the updater of the effect "Ensure entry has keys for current fields": a copy of
      the draft, one loop over the fields, one loop over the keys the copy then has\<close>
  "ensure_entry_keys fs prev =
     (let next0 = prev;
          next1 = foldl add_missing_key next0 fs;
          next2 = foldl (drop_stale_key fs) next1 (object_keys next1)
      in next2)"

definition setFields :: "Field list \<Rightarrow> AppState \<Rightarrow> AppState" where
  \<comment> \<open>the state setter, followed by the effect that depends on \<open>fields\<close>\<close>
  "setFields newFields s =
     s\<lparr>fields_st := newFields, entry := ensure_entry_keys newFields (entry s)\<rparr>"


definition uid :: "string \<Rightarrow> string \<Rightarrow> string" where
  \<comment> \<open>the second argument is the text \<^verbatim>\<open>Math.random().toString(36)\<close>\<close>
  "uid pre rnd = pre @ ''_'' @ take 8 (drop 2 rnd)"

definition addField :: "string \<Rightarrow> AppState \<Rightarrow> AppState" where
  "addField rnd s =
     setFields (fields_st s @ [\<lparr>id_f = uid ''field'' rnd, label = ''??? ??????'', type = Text\<rparr>]) s"

definition removeField :: "string \<Rightarrow> AppState \<Rightarrow> AppState" where
  "removeField i s = setFields (filter (\<lambda>f. id_f f \<noteq> i) (fields_st s)) s"

definition saveEntry :: "AppState \<Rightarrow> AppState" where
  "saveEntry s =
     s\<lparr>entries := entry s # entries s,
       entry := fromEntries (map (\<lambda>f. (id_f f, [])) (fields_st s))\<rparr>"

definition filter_index :: "(nat \<Rightarrow> bool) \<Rightarrow> 'a list \<Rightarrow> 'a list" where
  \<comment> \<open>\<^verbatim>\<open>list.filter((_, i) => p(i))\<close>\<close>
  "filter_index p xs = map snd (filter (\<lambda>ix. p (fst ix)) (enumerate 0 xs))"

definition deleteSavedEntry :: "nat \<Rightarrow> AppState \<Rightarrow> AppState" where
  \<comment> \<open>the delete button of row \<open>idx\<close>\<close>
  "deleteSavedEntry idx s = s\<lparr>entries := filter_index (\<lambda>i. i \<noteq> idx) (entries s)\<rparr>"

definition cell_text :: "Entry \<Rightarrow> string \<Rightarrow> jsread" where
  \<comment> \<open>the table cell \<^verbatim>\<open>en[f.id] || ""\<close>\<close>
  "cell_text en k =
     (case get_prop en k of
        Undefined \<Rightarrow> Str []
      | Str v \<Rightarrow> Str v
      | Inherited \<Rightarrow> Inherited)"

datatype render_error = InvalidChild

definition render_cell :: "Entry \<Rightarrow> string \<Rightarrow> render_error + string" where
  \<comment> \<open>what React shows for the child \<^verbatim>\<open>{en[f.id] || ""}\<close>: the text of a string, nothing
      for a function, and for an object that is no element it throws ("Objects are not
      valid as a React child"). Of the members of \<^verbatim>\<open>Object.prototype\<close> the accessor
      \<^verbatim>\<open>__proto__\<close> yields the prototype, an object; every other one is a function.\<close>
  "render_cell en k =
     (case cell_text en k of
        Undefined \<Rightarrow> Inr []
      | Str v \<Rightarrow> Inr v
      | Inherited \<Rightarrow> if k = ''__proto__'' then Inl InvalidChild else Inr [])"


section \<open>The import gateway: \<open>importJSON\<close>\<close>

text \<open>
  The value \<^verbatim>\<open>JSON.parse\<close> returns. An object is the list of its own properties (keys
  distinct); every finite number is a rational.
\<close>

datatype json =
    JNull
  | JBool bool
  | JNum rat
  | JStr string
  | JArr "json list"
  | JObj "(string \<times> json) list"

datatype js_error = SyntaxError | TypeError

text \<open>
  What a property read yields: \<^verbatim>\<open>undefined\<close>, a built-in method found on a prototype,
  or a parsed value.
\<close>

datatype jsval = JUndefined | JBuiltin | JVal json

fun obj_fields :: "json \<Rightarrow> js_error + jsval" where
  \<comment> \<open>\<^verbatim>\<open>obj.fields\<close>: a read from \<^verbatim>\<open>null\<close> throws; no prototype has a member \<open>fields\<close>\<close>
  "obj_fields JNull = Inl TypeError"
| "obj_fields (JObj kv) = Inr (case map_of kv ''fields'' of Some v \<Rightarrow> JVal v | None \<Rightarrow> JUndefined)"
| "obj_fields _ = Inr JUndefined"

fun obj_entries :: "json \<Rightarrow> js_error + jsval" where
  \<comment> \<open>\<^verbatim>\<open>obj.entries\<close>: on an array it is the method \<^verbatim>\<open>Array.prototype.entries\<close>\<close>
  "obj_entries JNull = Inl TypeError"
| "obj_entries (JObj kv) = Inr (case map_of kv ''entries'' of Some v \<Rightarrow> JVal v | None \<Rightarrow> JUndefined)"
| "obj_entries (JArr xs) = Inr JBuiltin"
| "obj_entries _ = Inr JUndefined"

fun as_array :: "jsval \<Rightarrow> json list option" where
  \<comment> \<open>\<^verbatim>\<open>Array.isArray(x)\<close>, with the elements when it holds\<close>
  "as_array (JVal (JArr xs)) = Some xs"
| "as_array _ = None"

type_synonym RawStore = "(json, json) Store"

definition import_else :: "json \<Rightarrow> RawStore \<Rightarrow> RawStore" where
  \<comment> \<open>\<^verbatim>\<open>else if (Array.isArray(obj)) setEntries(obj)\<close>\<close>
  "import_else obj s = (case obj of JArr xs \<Rightarrow> s\<lparr>entries := xs\<rparr> | _ \<Rightarrow> s)"

definition import_parsed :: "json \<Rightarrow> RawStore \<Rightarrow> js_error + RawStore" where
  \<comment> \<open>the statements of the \<^verbatim>\<open>try\<close> block after the parse\<close>
  "import_parsed obj s =
     (case obj_fields obj of
        Inl e \<Rightarrow> Inl e
      | Inr f \<Rightarrow>
          (case as_array f of
             None \<Rightarrow> Inr (import_else obj s)
           | Some fs \<Rightarrow>
               (case obj_entries obj of
                  Inl e \<Rightarrow> Inl e
                | Inr en \<Rightarrow>
                    (case as_array en of
                       None \<Rightarrow> Inr (import_else obj s)
                     | Some es \<Rightarrow> Inr (s\<lparr>fields_st := fs, entries := es\<rparr>)))))"

definition importJSON :: "(string \<Rightarrow> json option) \<Rightarrow> string \<Rightarrow> RawStore \<Rightarrow> RawStore" where
  \<comment> \<open>\<^verbatim>\<open>reader.onload\<close>. The first argument is \<^verbatim>\<open>JSON.parse\<close> (\<open>None\<close>: it throws
      \<^verbatim>\<open>SyntaxError\<close>), the second the text of the file (\<^verbatim>\<open>reader.result\<close>). Both
      exceptions end in the empty \<^verbatim>\<open>catch\<close>. The cells are set as the handler sets them;
      the effect that runs after a change of \<open>fields\<close> rewrites the draft only.\<close>
  "importJSON JSON_parse result s =
     (case JSON_parse (if result = [] then ''{}'' else result) of
        None \<Rightarrow> s
      | Some obj \<Rightarrow> (case import_parsed obj s of Inl e \<Rightarrow> s | Inr s' \<Rightarrow> s'))"

definition conforming :: "(string \<Rightarrow> json option) \<Rightarrow> bool" where
  \<comment> \<open>two facts of JSON: the empty text is no JSON text, and \<^verbatim>\<open>{}\<close> is the empty object\<close>
  "conforming JSON_parse \<longleftrightarrow> JSON_parse [] = None \<and> JSON_parse ''{}'' = Some (JObj [])"

definition sample_parse :: "string \<Rightarrow> json option" where
  \<comment> \<open>\<^verbatim>\<open>JSON.parse\<close> on four texts, for the examples\<close>
  "sample_parse t =
     (if t = ''{}'' then Some (JObj [])
      else if t = ''[{}]'' then Some (JArr [JObj []])
      else if t = ''null'' then Some JNull
      else if t = [CHR ''{'', CHR 0x22] @ ''fields'' @ [CHR 0x22] @ '':[],'' @ [CHR 0x22] @ ''entries''
                    @ [CHR 0x22] @ '':[{}]}''
        then Some (JObj [(''fields'', JArr []), (''entries'', JArr [JObj []])])
      else None)"

section \<open>The CSV codec: \<open>toCSV\<close>\<close>

abbreviation DQ :: char where "DQ \<equiv> CHR 0x22"
abbreviation LF :: char where "LF \<equiv> CHR 0x0A"

definition replaceAll_quote :: "string \<Rightarrow> string" where
  \<comment> \<open>\<^verbatim>\<open>v.replaceAll('"', '""')\<close>\<close>
  "replaceAll_quote v = concat (map (\<lambda>c. if c = DQ then [DQ, DQ] else [c]) v)"

definition test_special :: "string \<Rightarrow> bool" where
  \<comment> \<open>\<^verbatim>\<open>/[",\n]/.test(s)\<close>\<close>
  "test_special s = (\<exists>c \<in> set s. c = DQ \<or> c = CHR '','' \<or> c = LF)"

definition quote_if_special :: "string \<Rightarrow> string" where
  \<comment> \<open>the second line of \<open>escape\<close>\<close>
  "quote_if_special s = (if test_special s then [DQ] @ s @ [DQ] else s)"

definition escape :: "jsread \<Rightarrow> js_error + string" where
  \<comment> \<open>\<^verbatim>\<open>v?.replaceAll(...) ?? ""\<close>: \<^verbatim>\<open>undefined\<close> gives the empty string; a value that is
      not a string has no method \<^verbatim>\<open>replaceAll\<close>, and the call throws\<close>
  "escape v =
     (case v of
        Undefined \<Rightarrow> Inr (quote_if_special [])
      | Str x \<Rightarrow> Inr (quote_if_special (replaceAll_quote x))
      | Inherited \<Rightarrow> Inl TypeError)"

definition nullish_default :: "jsread \<Rightarrow> jsread" where
  \<comment> \<open>\<^verbatim>\<open>x ?? ""\<close>\<close>
  "nullish_default x = (case x of Undefined \<Rightarrow> Str [] | _ \<Rightarrow> x)"

fun join :: "string \<Rightarrow> string list \<Rightarrow> string" where
  \<comment> \<open>\<^verbatim>\<open>xs.join(sep)\<close>\<close>
  "join sep [] = []"
| "join sep [x] = x"
| "join sep (x # y # ys) = x @ sep @ join sep (y # ys)"

fun collect :: "(js_error + 'a) list \<Rightarrow> js_error + 'a list" where
  \<comment> \<open>the results of a loop, up to the first exception\<close>
  "collect [] = Inr []"
| "collect (x # xs) =
     (case x of
        Inl e \<Rightarrow> Inl e
      | Inr v \<Rightarrow> (case collect xs of Inl e \<Rightarrow> Inl e | Inr vs \<Rightarrow> Inr (v # vs)))"

definition row_line :: "string list \<Rightarrow> Entry \<Rightarrow> js_error + string" where
  \<comment> \<open>\<^verbatim>\<open>headers.map((h) => escape(row[h] ?? "")).join(",")\<close>\<close>
  "row_line headers row =
     (case collect (map (\<lambda>h. escape (nullish_default (get_prop row h))) headers) of
        Inl e \<Rightarrow> Inl e
      | Inr cells \<Rightarrow> Inr (join '','' cells))"

definition toCSV :: "Entry list \<Rightarrow> js_error + string" where
  "toCSV rows =
     (case rows of
        [] \<Rightarrow> Inr []
      | first # _ \<Rightarrow>
          (let headers = object_keys first in
           case collect (map (row_line headers) rows) of
             Inl e \<Rightarrow> Inl e
           | Inr ls \<Rightarrow> Inr (join [LF] (join '','' headers # ls))))"

fun split_on :: "char \<Rightarrow> string \<Rightarrow> string list" where
  \<comment> \<open>\<^verbatim>\<open>s.split(c)\<close> for a separator of one character\<close>
  "split_on c [] = [[]]"
| "split_on c (x # xs) =
     (if x = c then [] # split_on c xs
      else (x # hd (split_on c xs)) # tl (split_on c xs))"

text \<open>The encoding as the specification words it, to compare \<open>toCSV\<close> with.\<close>

fun double_quotes :: "string \<Rightarrow> string" where
  \<comment> \<open>"internal double-quotes doubled"\<close>
  "double_quotes [] = []"
| "double_quotes (c # cs) = (if c = DQ then DQ # DQ # double_quotes cs else c # double_quotes cs)"

definition csv_value_spec :: "string \<Rightarrow> string" where
  \<comment> \<open>"wrapped in double-quotes iff it contains a comma, double-quote, or newline"\<close>
  "csv_value_spec v =
     (if CHR '','' \<in> set v \<or> DQ \<in> set v \<or> LF \<in> set v
      then [DQ] @ double_quotes v @ [DQ] else double_quotes v)"

definition value_or_empty :: "Entry \<Rightarrow> string \<Rightarrow> string" where
  \<comment> \<open>"an absent value is treated as the empty string"\<close>
  "value_or_empty row h = (case map_of row h of None \<Rightarrow> [] | Some v \<Rightarrow> v)"

definition encode_spec :: "Entry list \<Rightarrow> string" where
  \<comment> \<open>header row: the keys of the first record; fields comma-joined; rows joined by a
      line feed, none after the last\<close>
  "encode_spec rows =
     (case rows of
        [] \<Rightarrow> []
      | first # _ \<Rightarrow>
          join [LF]
            (join '','' (object_keys first)
             # map (\<lambda>row. join '','' (map (\<lambda>h. csv_value_spec (value_or_empty row h)) (object_keys first)))
                 rows))"

section \<open>The bookmarklet compiler\<close>

subsection \<open>\<open>parseBookmarkletPairs\<close>\<close>

abbreviation CR :: char where "CR \<equiv> CHR 0x0D"

definition is_space :: "char \<Rightarrow> bool" where
  \<comment> \<open>the class \<^verbatim>\<open>\s\<close>, which is also what \<^verbatim>\<open>trim\<close> strips: tab, line feed, vertical tab,
      form feed, carriage return, space, no-break space (the code units below 256)\<close>
  "is_space c \<longleftrightarrow> c \<in> {CHR 0x09, LF, CHR 0x0B, CHR 0x0C, CR, CHR 0x20, CHR 0xA0}"

definition trim :: "string \<Rightarrow> string" where
  "trim s = rev (dropWhile is_space (rev (dropWhile is_space s)))"

fun split_newlines_from :: "string \<Rightarrow> string \<Rightarrow> string list" where
  \<comment> \<open>\<^verbatim>\<open>split(/\r?\n/)\<close>; the first argument is the piece read so far\<close>
  "split_newlines_from cur [] = [cur]"
| "split_newlines_from cur [c] = (if c = LF then [cur, []] else [cur @ [c]])"
| "split_newlines_from cur (c # d # ds) =
     (if c = LF then cur # split_newlines_from [] (d # ds)
      else if c = CR \<and> d = LF then cur # split_newlines_from [] ds
      else split_newlines_from (cur @ [c]) (d # ds))"

definition separator_at :: "string \<Rightarrow> string option" where
  \<comment> \<open>a match of \<^verbatim>\<open>/\s*[=:]\s*/\<close> at the start of the text: what follows the match\<close>
  "separator_at s =
     (case dropWhile is_space s of
        [] \<Rightarrow> None
      | c # cs \<Rightarrow> if c = CHR ''='' \<or> c = CHR '':'' then Some (dropWhile is_space cs) else None)"

function split_separators_from :: "string \<Rightarrow> string \<Rightarrow> string list" where
  \<comment> \<open>\<^verbatim>\<open>split(/\s*[=:]\s*/)\<close>: at each position the pattern is tried; a match ends the
      piece and the scan goes on after the match\<close>
  "split_separators_from cur [] = [cur]"
| "split_separators_from cur (c # cs) =
     (case separator_at (c # cs) of
        Some r \<Rightarrow> cur # split_separators_from [] r
      | None \<Rightarrow> split_separators_from (cur @ [c]) cs)"
  by pat_completeness auto
termination
proof (relation "measure (\<lambda>(cur, s). length s)")
  fix cur :: string and c cs r
  assume "separator_at (c # cs) = Some r"
  then obtain d ds where d: "dropWhile is_space (c # cs) = d # ds" and r: "r = dropWhile is_space ds"
    by (auto simp: separator_at_def split: list.splits if_splits)
  have "length r \<le> length ds" unfolding r by (rule length_dropWhile_le)
  also have "length ds < length (dropWhile is_space (c # cs))" unfolding d by simp
  also have "\<dots> \<le> length (c # cs)" by (rule length_dropWhile_le)
  finally show "(([], r), (cur, c # cs)) \<in> measure (\<lambda>(cur, s). length s)" by simp
qed simp_all

record pair =
  selector :: string
  value_p :: string

definition line_pair :: "string \<Rightarrow> pair" where
  \<comment> \<open>\<^verbatim>\<open>const [sel, ...rest] = line.split(...)\<close>, the value is \<^verbatim>\<open>rest.join(": ")\<close>\<close>
  "line_pair line =
     (case split_separators_from [] line of
        [] \<Rightarrow> \<lparr>selector = [], value_p = []\<rparr>
      | sel # rest \<Rightarrow> \<lparr>selector = sel, value_p = join '': '' rest\<rparr>)"

definition parseBookmarkletPairs :: "string \<Rightarrow> pair list" where
  "parseBookmarkletPairs txt =
     filter (\<lambda>p. selector p \<noteq> [])
       (map line_pair (filter (\<lambda>l. l \<noteq> []) (map trim (split_newlines_from [] txt))))"

subsection \<open>The script \<open>buildBookmarklet\<close> emits\<close>

text \<open>
  The script is the text of a template literal. The TypeScript compiler leaves the text
  of a template as it is, so the browser receives the statements as the source spells
  them, and it parses the whole text before it runs one statement of it. The model keeps
  the three assignments of the loop body, each with its target as the text has it, and
  the test that chooses among them.

  A target is \<^verbatim>\<open>el.p\<close>, or \<^verbatim>\<open>(el as T).p\<close> with a type assertion of TypeScript, which is
  no expression of JavaScript. What is written is the pair's value \<^verbatim>\<open>v\<close>, or the flag
  \<^verbatim>\<open>v === 'true' || v === '1' || v.toLowerCase() === 'yes'\<close>.
\<close>

datatype target = Member string | AssertedMember string string

datatype written = TruthyFlag | PairValue

datatype assignment = Assign target written

record loop_body =
  for_checkbox_or_radio :: assignment
  for_other_input :: assignment
  for_other_element :: assignment

definition emitted_loop_body :: loop_body where
  \<comment> \<open>the assignments of the template, in the order of the text\<close>
  "emitted_loop_body =
     \<lparr>for_checkbox_or_radio = Assign (AssertedMember ''HTMLInputElement'' ''checked'') TruthyFlag,
      for_other_input = Assign (Member ''value'') PairValue,
      for_other_element = Assign (AssertedMember ''HTMLElement'' ''textContent'') PairValue\<rparr>"

fun is_javascript :: "assignment \<Rightarrow> bool" where
  "is_javascript (Assign (Member p) w) = True"
| "is_javascript (Assign (AssertedMember t p) w) = False"

definition parses :: "loop_body \<Rightarrow> bool" where
  "parses b \<longleftrightarrow> is_javascript (for_checkbox_or_radio b) \<and> is_javascript (for_other_input b)
                \<and> is_javascript (for_other_element b)"

text \<open>
  Of an element the model keeps its class, its \<open>type\<close> attribute and the properties the
  script may write (\<open>checked\<close>, \<open>value\<close>, \<open>textContent\<close>); the two events the script
  dispatches change none of them.
\<close>

datatype element_class = HTMLInputElement | HTMLTextAreaElement | OtherElement

datatype property_value = Flag bool | Txt string

record element =
  element_class :: element_class
  type_attribute :: "string option"
  properties :: "(string \<times> property_value) list"

definition lower_char :: "char \<Rightarrow> char" where
  \<comment> \<open>\<^verbatim>\<open>toLowerCase\<close> on a code unit below 256\<close>
  "lower_char c =
     (let n = (of_char c :: nat) in
      if (65 \<le> n \<and> n \<le> 90) \<or> (192 \<le> n \<and> n \<le> 222 \<and> n \<noteq> 215) then char_of (n + 32) else c)"

definition toLowerCase :: "string \<Rightarrow> string" where
  "toLowerCase s = map lower_char s"

fun written_value :: "written \<Rightarrow> string \<Rightarrow> property_value" where
  "written_value TruthyFlag v = Flag (v = ''true'' \<or> v = ''1'' \<or> toLowerCase v = ''yes'')"
| "written_value PairValue v = Txt v"

definition set_property :: "string \<Rightarrow> property_value \<Rightarrow> element \<Rightarrow> element" where
  "set_property p x el = el\<lparr>properties := (p, x) # filter (\<lambda>q. fst q \<noteq> p) (properties el)\<rparr>"

fun run_assignment :: "assignment \<Rightarrow> string \<Rightarrow> element \<Rightarrow> js_error + element" where
  "run_assignment (Assign (Member p) w) v el = Inr (set_property p (written_value w v) el)"
| "run_assignment (Assign (AssertedMember t p) w) v el = Inl SyntaxError"

definition run_loop_body :: "loop_body \<Rightarrow> string \<Rightarrow> element \<Rightarrow> js_error + element" where
  \<comment> \<open>the statements for one pair whose selector resolved to \<open>el\<close>\<close>
  "run_loop_body b v el =
     (if element_class el = HTMLInputElement \<or> element_class el = HTMLTextAreaElement then
        (let t = toLowerCase (case type_attribute el of None \<Rightarrow> [] | Some a \<Rightarrow> a) in
         if t = ''checkbox'' \<or> t = ''radio''
         then run_assignment (for_checkbox_or_radio b) v el
         else run_assignment (for_other_input b) v el)
      else run_assignment (for_other_element b) v el)"

definition run_script :: "loop_body \<Rightarrow> string \<Rightarrow> element \<Rightarrow> js_error + element" where
  \<comment> \<open>a text that does not parse is a \<^verbatim>\<open>SyntaxError\<close>, and none of it runs\<close>
  "run_script b v el = (if parses b then run_loop_body b v el else Inl SyntaxError)"

definition element_after_click :: "string \<Rightarrow> element \<Rightarrow> element" where
  \<comment> \<open>the element once the bookmarklet has been clicked\<close>
  "element_after_click v el =
     (case run_script emitted_loop_body v el of Inl e \<Rightarrow> el | Inr el' \<Rightarrow> el')"

section \<open>Properties of the store\<close>

lemma filter_enumerate_above:
  "(\<And>i. n \<le> i \<Longrightarrow> p i) \<Longrightarrow> filter (\<lambda>ix. p (fst ix)) (enumerate n xs) = enumerate n xs"
  by (induction xs arbitrary: n) auto

lemma filter_index_drop_first: "filter_index (\<lambda>i. i \<noteq> 0) (x # xs) = xs"
proof -
  have "filter (\<lambda>ix. fst ix \<noteq> 0) (enumerate (Suc 0) xs) = enumerate (Suc 0) xs"
    by (rule filter_enumerate_above) simp
  then show ?thesis by (simp add: filter_index_def)
qed

lemma map_of_define_prop:
  "map_of (define_prop k v obj) k' = (if k' = k then Some v else map_of obj k')"
  by (induction obj) auto

lemma keys_define_prop: "set (object_keys (define_prop k v obj)) = insert k (set (object_keys obj))"
  by (induction obj) (auto simp: object_keys_def)

lemma keys_fromEntries_aux:
  "set (object_keys (foldl (\<lambda>obj (k, v). define_prop k v obj) acc ps))
     = set (object_keys acc) \<union> fst ` set ps"
  by (induction ps arbitrary: acc) (auto simp: keys_define_prop split: prod.splits)

lemma values_define_prop: "snd ` set (define_prop k v obj) \<subseteq> insert v (snd ` set obj)"
  by (induction obj) auto

lemma values_fromEntries_aux:
  "snd ` set (foldl (\<lambda>obj (k, v). define_prop k v obj) acc ps) \<subseteq> snd ` set acc \<union> snd ` set ps"
proof (induction ps arbitrary: acc)
  case Nil
  then show ?case by simp
next
  case (Cons p ps)
  obtain k0 v0 where p: "p = (k0, v0)" by (cases p)
  have "snd ` set (foldl (\<lambda>obj (k, v). define_prop k v obj) (define_prop k0 v0 acc) ps)
          \<subseteq> snd ` set (define_prop k0 v0 acc) \<union> snd ` set ps"
    by (rule Cons.IH)
  also have "\<dots> \<subseteq> insert v0 (snd ` set acc) \<union> snd ` set ps"
    using values_define_prop [of k0 v0 acc] by blast
  finally show ?case by (simp add: p)
qed

lemma all_values_fromEntries:
  "snd ` set ps \<subseteq> {c} \<Longrightarrow> (k, v) \<in> set (foldl (\<lambda>obj (k, v). define_prop k v obj) [] ps) \<Longrightarrow> v = c"
  using values_fromEntries_aux [of "[]" ps] by force

text \<open>
  Claim C7. For every store state, \<open>saveEntry\<close> followed by deleting the saved entry at
  index 0 gives back the saved list as it was before \<open>saveEntry\<close>; the draft is reset as a
  side effect: its keys are the ids of the current fields and each of its values is the
  empty string.
\<close>

theorem saveEntry_then_delete_first:
  "entries (deleteSavedEntry 0 (saveEntry s)) = entries s
   \<and> fields_st (deleteSavedEntry 0 (saveEntry s)) = fields_st s
   \<and> set (object_keys (entry (deleteSavedEntry 0 (saveEntry s)))) = id_f ` set (fields_st s)
   \<and> (set (map snd (entry (deleteSavedEntry 0 (saveEntry s)))) \<subseteq> {[]})"
proof -
  have e: "entry (deleteSavedEntry 0 (saveEntry s)) = fromEntries (map (\<lambda>f. (id_f f, [])) (fields_st s))"
    by (simp add: deleteSavedEntry_def saveEntry_def)
  have 1: "entries (deleteSavedEntry 0 (saveEntry s)) = entries s"
    using filter_index_drop_first [of "entry s" "entries s"]
    by (simp add: deleteSavedEntry_def saveEntry_def)
  have 2: "fields_st (deleteSavedEntry 0 (saveEntry s)) = fields_st s"
    by (simp add: deleteSavedEntry_def saveEntry_def)
  have 3: "set (object_keys (fromEntries (map (\<lambda>f. (id_f f, [])) (fields_st s)))) = id_f ` set (fields_st s)"
    unfolding fromEntries_def keys_fromEntries_aux by (force simp: object_keys_def)
  have 4: "set (map snd (fromEntries (map (\<lambda>f. (id_f f, [])) (fields_st s)))) \<subseteq> {[]}"
  proof
    fix v assume "v \<in> set (map snd (fromEntries (map (\<lambda>f. (id_f f, [])) (fields_st s))))"
    then obtain k where kv: "(k, v) \<in> set (fromEntries (map (\<lambda>f. (id_f f, [])) (fields_st s)))"
      by auto
    have "snd ` set (map (\<lambda>f. (id_f f, [])) (fields_st s)) \<subseteq> {[]}"
      by auto
    then show "v \<in> {[]}"
      using kv all_values_fromEntries [of "map (\<lambda>f. (id_f f, [])) (fields_st s)" "[]" k v]
      by (simp add: fromEntries_def)
  qed
  show ?thesis using 1 2 3 4 e by simp
qed

subsection \<open>The reconciliation effect\<close>

lemma proto_in_names: "''__proto__'' \<in> set object_prototype_names"
  by (simp add: object_prototype_names_def)

lemma add_missing_key_eq:
  "add_missing_key nxt f =
     (if id_f f \<in> set (object_keys nxt) \<or> id_f f \<in> set object_prototype_names then nxt
      else define_prop (id_f f) [] nxt)"
  using proto_in_names by (auto simp: add_missing_key_def has_in_def assign_prop_def)

lemma keys_add_missing_key:
  "set (object_keys (add_missing_key nxt f))
     = set (object_keys nxt) \<union> ({id_f f} - set object_prototype_names)"
  by (auto simp: add_missing_key_eq keys_define_prop)

lemma map_of_None_keys: "map_of obj k = None \<longleftrightarrow> k \<notin> set (object_keys obj)"
  by (simp add: object_keys_def map_of_eq_None_iff)

lemma map_of_add_missing_key:
  "map_of (add_missing_key nxt f) k =
     (if k \<in> set (object_keys nxt) then map_of nxt k
      else if k = id_f f \<and> k \<notin> set object_prototype_names then Some [] else None)"
  by (auto simp: add_missing_key_eq map_of_define_prop map_of_None_keys keys_define_prop)

lemma keys_first_loop:
  "set (object_keys (foldl add_missing_key prev fs))
     = set (object_keys prev) \<union> (id_f ` set fs - set object_prototype_names)"
proof (induction fs arbitrary: prev)
  case Nil
  then show ?case by simp
next
  case (Cons f fs)
  have "set (object_keys (foldl add_missing_key (add_missing_key prev f) fs))
          = set (object_keys (add_missing_key prev f)) \<union> (id_f ` set fs - set object_prototype_names)"
    by (rule Cons.IH)
  then show ?case by (auto simp: keys_add_missing_key)
qed

lemma map_of_first_loop:
  "map_of (foldl add_missing_key prev fs) k =
     (if k \<in> set (object_keys prev) then map_of prev k
      else if k \<in> id_f ` set fs - set object_prototype_names then Some [] else None)"
proof (induction fs arbitrary: prev)
  case Nil
  then show ?case by (simp add: map_of_None_keys)
next
  case (Cons f fs)
  have "map_of (foldl add_missing_key (add_missing_key prev f) fs) k =
     (if k \<in> set (object_keys (add_missing_key prev f)) then map_of (add_missing_key prev f) k
      else if k \<in> id_f ` set fs - set object_prototype_names then Some [] else None)"
    by (rule Cons.IH)
  then show ?case by (auto simp: keys_add_missing_key map_of_add_missing_key)
qed

lemma second_loop:
  "foldl (drop_stale_key fs) obj ks
     = filter (\<lambda>p. fst p \<in> id_f ` set fs \<or> fst p \<notin> set ks) obj"
proof (induction ks arbitrary: obj)
  case Nil
  then show ?case by simp
next
  case (Cons k ks)
  show ?case
  proof (cases "k \<in> id_f ` set fs")
    case True
    then have "drop_stale_key fs obj k = obj"
      by (auto simp: drop_stale_key_def find_None_iff)
    with True show ?thesis
      by (auto simp: Cons.IH intro!: filter_cong)
  next
    case False
    then have "drop_stale_key fs obj k = filter (\<lambda>p. fst p \<noteq> k) obj"
      by (auto simp: drop_stale_key_def find_None_iff delete_prop_def)
    with False show ?thesis
      by (auto simp: Cons.IH intro!: filter_cong)
  qed
qed

lemma ensure_entry_keys_eq:
  "ensure_entry_keys fs prev = filter (\<lambda>p. fst p \<in> id_f ` set fs) (foldl add_missing_key prev fs)"
  unfolding ensure_entry_keys_def Let_def second_loop
  by (rule filter_cong) (auto simp: object_keys_def)

lemma map_of_filter_keys:
  "map_of (filter (\<lambda>p. fst p \<in> A) obj) k = (if k \<in> A then map_of obj k else None)"
  by (induction obj) auto

lemma keys_filter_keys:
  "set (object_keys (filter (\<lambda>p. fst p \<in> A) obj)) = set (object_keys obj) \<inter> A"
  by (induction obj) (auto simp: object_keys_def)

lemma keys_ensure_entry_keys:
  "set (object_keys (ensure_entry_keys fs prev))
     = (set (object_keys prev) \<inter> id_f ` set fs) \<union> (id_f ` set fs - set object_prototype_names)"
  unfolding ensure_entry_keys_eq keys_filter_keys keys_first_loop by blast

lemma map_of_ensure_entry_keys:
  "map_of (ensure_entry_keys fs prev) k =
     (if k \<notin> id_f ` set fs then None
      else if k \<in> set (object_keys prev) then map_of prev k
      else if k \<in> set object_prototype_names then None else Some [])"
  by (simp add: ensure_entry_keys_eq map_of_filter_keys map_of_first_loop)

lemma setFields_reconciles_own_names:
  assumes "id_f ` set nf \<inter> set object_prototype_names \<subseteq> set (object_keys (entry s))"
  shows "set (object_keys (entry (setFields nf s))) = id_f ` set nf"
    and "k \<in> id_f ` set nf \<Longrightarrow> k \<in> set (object_keys (entry s)) \<Longrightarrow>
           map_of (entry (setFields nf s)) k = map_of (entry s) k"
    and "k \<in> id_f ` set nf \<Longrightarrow> k \<notin> set (object_keys (entry s)) \<Longrightarrow>
           map_of (entry (setFields nf s)) k = Some []"
  using assms by (auto simp: setFields_def keys_ensure_entry_keys map_of_ensure_entry_keys)

lemma setFields_keeps_common_values:
  "k \<in> id_f ` set nf \<Longrightarrow> k \<in> set (object_keys (entry s)) \<Longrightarrow>
     map_of (entry (setFields nf s)) k = map_of (entry s) k"
  by (simp add: setFields_def map_of_ensure_entry_keys)

lemma initial_entry: "entry initial_store =
  [(''name'', []), (''email'', []), (''phone'', []), (''address'', []), (''date'', [])]"
  by (simp add: initial_store_def DEFAULT_FIELDS_def assign_prop_def object_keys_def)

text \<open>
  Claim C1. After \<open>setFields\<close> the draft's key set should equal the id set of the new
  field list. The effect tests \<^verbatim>\<open>f.id in next\<close>, which is also true of a name the
  draft only inherits from \<^verbatim>\<open>Object.prototype\<close>: from the initial store, the field list
  with the ids \<open>name\<close> and \<open>toString\<close> leaves a draft whose only key is \<open>name\<close>, and
  reading \<open>toString\<close> from it yields the inherited function, not a string.
  (\<open>setFields_reconciles_own_names\<close> above is the claim for the field lists whose new ids
  are not such names.)
\<close>

theorem setFields_misses_inherited_name:
  "object_keys (entry (setFields [\<lparr>id_f = ''name'', label = ''N'', type = Text\<rparr>,
                                  \<lparr>id_f = ''toString'', label = ''T'', type = Text\<rparr>] initial_store))
     = [''name'']
   \<and> set (object_keys (entry (setFields [\<lparr>id_f = ''name'', label = ''N'', type = Text\<rparr>,
                                  \<lparr>id_f = ''toString'', label = ''T'', type = Text\<rparr>] initial_store)))
     \<noteq> id_f ` set (fields_st (setFields [\<lparr>id_f = ''name'', label = ''N'', type = Text\<rparr>,
                                  \<lparr>id_f = ''toString'', label = ''T'', type = Text\<rparr>] initial_store))
   \<and> get_prop (entry (setFields [\<lparr>id_f = ''name'', label = ''N'', type = Text\<rparr>,
                                  \<lparr>id_f = ''toString'', label = ''T'', type = Text\<rparr>] initial_store)) ''toString''
     = Inherited"
proof -
  define fs where "fs = [\<lparr>id_f = ''name'', label = ''N'', type = Text\<rparr>,
                          \<lparr>id_f = ''toString'', label = ''T'', type = Text\<rparr>]"
  have e: "entry (setFields fs initial_store) = [(''name'', [])]"
    by (simp add: fs_def setFields_def initial_entry ensure_entry_keys_def Let_def add_missing_key_def
      drop_stale_key_def has_in_def object_keys_def assign_prop_def delete_prop_def
      object_prototype_names_def)
  have f: "fields_st (setFields fs initial_store) = fs"
    by (simp add: setFields_def)
  have "object_keys (entry (setFields fs initial_store)) = [''name'']
      \<and> set (object_keys (entry (setFields fs initial_store)))
            \<noteq> id_f ` set (fields_st (setFields fs initial_store))
      \<and> get_prop (entry (setFields fs initial_store)) ''toString'' = Inherited"
    unfolding e f by (simp add: fs_def object_keys_def get_prop_def object_prototype_names_def)
  then show ?thesis unfolding fs_def .
qed

subsection \<open>Saved entries and the draft under field changes\<close>

lemma uid_field_not_inherited: "uid ''field'' rnd \<notin> set object_prototype_names"
  by (simp add: uid_def object_prototype_names_def)

lemma cell_text_missing:
  "k \<notin> set (object_keys en) \<Longrightarrow> k \<notin> set object_prototype_names \<Longrightarrow> cell_text en k = Str []"
proof -
  assume "k \<notin> set (object_keys en)" and p: "k \<notin> set object_prototype_names"
  then have "map_of en k = None" by (simp add: map_of_None_keys)
  with p show ?thesis by (simp add: cell_text_def get_prop_def)
qed

lemma entries_saveEntry_initial: "entries (saveEntry initial_store) = [entry initial_store]"
  by (simp add: saveEntry_def initial_store_def)

lemma render_cell_missing:
  assumes "k \<notin> set (object_keys en)" and "k \<noteq> ''__proto__''"
  shows "render_cell en k = Inr []"
proof -
  from assms(1) have "map_of en k = None" by (simp add: map_of_None_keys)
  with assms(2) show ?thesis by (simp add: render_cell_def cell_text_def get_prop_def)
qed

lemma uid_field_not_proto: "uid ''field'' rnd \<noteq> ''__proto__''"
  by (simp add: uid_def)

text \<open>
  Every change of the field set (\<open>setFields\<close> with any list, \<open>addField\<close>, \<open>removeField\<close>,
  each with the reconciliation of the draft that follows it) leaves the list of saved
  entries as it was, so a saved entry keeps the keys it was saved with. The table cell
  shows the empty string for every key the entry does not own, the key \<^verbatim>\<open>__proto__\<close>
  apart; the id of a field that \<open>addField\<close> made is never that key.
\<close>

lemma field_changes_keep_saved_entries:
  "entries (setFields nf s) = entries s
   \<and> entries (addField rnd s) = entries s
   \<and> entries (removeField i s) = entries s
   \<and> (k \<notin> set (object_keys en) \<and> k \<noteq> ''__proto__'' \<longrightarrow> render_cell en k = Inr [])
   \<and> (uid ''field'' rnd \<notin> set (object_keys en) \<longrightarrow> render_cell en (uid ''field'' rnd) = Inr [])"
proof -
  have frame: "entries (setFields nf s) = entries s \<and> entries (addField rnd s) = entries s
                 \<and> entries (removeField i s) = entries s"
    by (simp add: setFields_def addField_def removeField_def)
  have missing: "k \<notin> set (object_keys en) \<and> k \<noteq> ''__proto__'' \<longrightarrow> render_cell en k = Inr []"
    by (simp add: render_cell_missing)
  have added: "uid ''field'' rnd \<notin> set (object_keys en) \<longrightarrow> render_cell en (uid ''field'' rnd) = Inr []"
    by (simp add: render_cell_missing uid_field_not_proto)
  show ?thesis using frame missing added by blast
qed

text \<open>
  Claim C8. A field-set change leaves the saved entries as they were, and a key that a
  saved entry lacks should be rendered as the empty string. The cell renders
  \<^verbatim>\<open>en[f.id] || ""\<close>, and for the id \<^verbatim>\<open>__proto__\<close> the read of an entry without that
  key yields the prototype object, which is no valid child: from the initial store,
  after \<open>saveEntry\<close> and a field list with that id, the saved entry is unchanged, lacks
  the key, and rendering its cell throws.
\<close>

theorem saved_entry_cell_throws_for_proto_id:
  "entries (setFields (DEFAULT_FIELDS @ [\<lparr>id_f = ''__proto__'', label = ''P'', type = Text\<rparr>])
              (saveEntry initial_store))
     = [[(''name'', []), (''email'', []), (''phone'', []), (''address'', []), (''date'', [])]]
   \<and> ''__proto__'' \<in> id_f ` set (fields_st
        (setFields (DEFAULT_FIELDS @ [\<lparr>id_f = ''__proto__'', label = ''P'', type = Text\<rparr>])
           (saveEntry initial_store)))
   \<and> ''__proto__'' \<notin> set (object_keys
        [(''name'', []), (''email'', []), (''phone'', []), (''address'', []), (''date'', [])])
   \<and> cell_text [(''name'', []), (''email'', []), (''phone'', []), (''address'', []), (''date'', [])]
        ''__proto__'' = Inherited
   \<and> render_cell [(''name'', []), (''email'', []), (''phone'', []), (''address'', []), (''date'', [])]
        ''__proto__'' = Inl InvalidChild"
proof -
  have e: "entries (setFields (DEFAULT_FIELDS @ [\<lparr>id_f = ''__proto__'', label = ''P'', type = Text\<rparr>])
              (saveEntry initial_store))
     = [[(''name'', []), (''email'', []), (''phone'', []), (''address'', []), (''date'', [])]]"
    by (simp add: setFields_def entries_saveEntry_initial initial_entry)
  have f: "''__proto__'' \<in> id_f ` set (fields_st
        (setFields (DEFAULT_FIELDS @ [\<lparr>id_f = ''__proto__'', label = ''P'', type = Text\<rparr>])
           (saveEntry initial_store)))"
    by (simp add: setFields_def)
  have r: "''__proto__'' \<notin> set (object_keys
        [(''name'', []), (''email'', []), (''phone'', []), (''address'', []), (''date'', [])])
   \<and> cell_text [(''name'', []), (''email'', []), (''phone'', []), (''address'', []), (''date'', [])]
        ''__proto__'' = Inherited
   \<and> render_cell [(''name'', []), (''email'', []), (''phone'', []), (''address'', []), (''date'', [])]
        ''__proto__'' = Inl InvalidChild"
    by (simp add: render_cell_def cell_text_def get_prop_def object_keys_def object_prototype_names_def)
  from e f r show ?thesis by (intro conjI) simp_all
qed





subsection \<open>\<open>addField\<close>\<close>

text \<open>
  Claim C9, as the code has it. \<open>addField\<close> appends exactly one field to the end of the
  list: its id is \<open>field_\<close> followed by the characters 2 to 9 of the base-36 text of a
  random number, its label the placeholder, its type \<open>text\<close>; the fields before it are
  unchanged. The code makes no check of the id: the ids stay pairwise distinct exactly
  when they were and no field has the generated id already.
\<close>

theorem addField_appends:
  "fields_st (addField rnd s)
     = fields_st s @ [\<lparr>id_f = ''field_'' @ take 8 (drop 2 rnd), label = ''??? ??????'', type = Text\<rparr>]
   \<and> (distinct (map id_f (fields_st (addField rnd s)))
        \<longleftrightarrow> distinct (map id_f (fields_st s))
            \<and> ''field_'' @ take 8 (drop 2 rnd) \<notin> id_f ` set (fields_st s))"
  by (auto simp: addField_def setFields_def uid_def)

text \<open>
  The claim as stated fails: when the random source yields the same text twice, the
  second new field has the id of the first.
\<close>

theorem addField_id_not_unique:
  "map id_f (fields_st (addField ''0.4fzyo82mvyr'' (addField ''0.4fzyo82mvyr'' initial_store)))
     = [''name'', ''email'', ''phone'', ''address'', ''date'', ''field_4fzyo82m'', ''field_4fzyo82m'']
   \<and> id_f (last (fields_st (addField ''0.4fzyo82mvyr'' (addField ''0.4fzyo82mvyr'' initial_store))))
        \<in> id_f ` set (fields_st (addField ''0.4fzyo82mvyr'' initial_store))"
  by (simp add: addField_def setFields_def uid_def initial_store_def DEFAULT_FIELDS_def)

subsection \<open>\<open>importJSON\<close>\<close>

lemma import_parsed_both:
  "map_of kv ''fields'' = Some (JArr fs) \<Longrightarrow> map_of kv ''entries'' = Some (JArr es) \<Longrightarrow>
   import_parsed (JObj kv) s = Inr (s\<lparr>fields_st := fs, entries := es\<rparr>)"
  by (simp add: import_parsed_def)

lemma import_parsed_array: "import_parsed (JArr xs) s = Inr (s\<lparr>entries := xs\<rparr>)"
  by (simp add: import_parsed_def import_else_def)

lemma as_array_Some: "as_array x = Some xs \<longleftrightarrow> x = JVal (JArr xs)"
  by (cases x rule: as_array.cases) auto

lemma import_parsed_other:
  assumes "\<nexists>kv fs es. obj = JObj kv \<and> map_of kv ''fields'' = Some (JArr fs)
                        \<and> map_of kv ''entries'' = Some (JArr es)"
    and "\<nexists>xs. obj = JArr xs"
  shows "import_parsed obj s = Inl TypeError \<or> import_parsed obj s = Inr s"
proof (cases obj)
  case (JObj kv)
  with assms(1) show ?thesis
    by (auto simp: import_parsed_def import_else_def as_array_Some split: option.splits)
next
  case (JArr xs)
  with assms(2) show ?thesis by simp
qed (simp_all add: import_parsed_def import_else_def)

text \<open>
  Claim C2. With \<^verbatim>\<open>JSON.parse\<close> any parser that rejects the empty text and reads \<^verbatim>\<open>{}\<close>
  as the empty object: if the file's text parses to an object whose properties \<open>fields\<close>
  and \<open>entries\<close> are arrays, the two cells are replaced by them; if it parses to an
  array, the saved entries are replaced by it and the fields are as before; in every
  other case (a text that does not parse among them) the fields and the saved entries
  are as before the import.
\<close>

theorem importJSON_contract:
  assumes "conforming JSON_parse"
  shows "(JSON_parse contents = Some (JObj kv) \<and> map_of kv ''fields'' = Some (JArr fs)
            \<and> map_of kv ''entries'' = Some (JArr es)
          \<longrightarrow> fields_st (importJSON JSON_parse contents s) = fs
              \<and> entries (importJSON JSON_parse contents s) = es)
       \<and> (JSON_parse contents = Some (JArr xs)
          \<longrightarrow> fields_st (importJSON JSON_parse contents s) = fields_st s
              \<and> entries (importJSON JSON_parse contents s) = xs)
       \<and> ((\<nexists>kv fs es. JSON_parse contents = Some (JObj kv) \<and> map_of kv ''fields'' = Some (JArr fs)
                          \<and> map_of kv ''entries'' = Some (JArr es))
            \<and> (\<nexists>xs. JSON_parse contents = Some (JArr xs))
          \<longrightarrow> fields_st (importJSON JSON_parse contents s) = fields_st s
              \<and> entries (importJSON JSON_parse contents s) = entries s)"
proof (intro conjI impI)
  assume a: "JSON_parse contents = Some (JObj kv) \<and> map_of kv ''fields'' = Some (JArr fs)
            \<and> map_of kv ''entries'' = Some (JArr es)"
  with assms have ne: "contents \<noteq> []" by (auto simp: conforming_def)
  with a show "fields_st (importJSON JSON_parse contents s) = fs"
    by (simp add: importJSON_def import_parsed_both)
  from a ne show "entries (importJSON JSON_parse contents s) = es"
    by (simp add: importJSON_def import_parsed_both)
next
  assume a: "JSON_parse contents = Some (JArr xs)"
  with assms have ne: "contents \<noteq> []" by (auto simp: conforming_def)
  with a show "fields_st (importJSON JSON_parse contents s) = fields_st s"
    by (simp add: importJSON_def import_parsed_array)
  from a ne show "entries (importJSON JSON_parse contents s) = xs"
    by (simp add: importJSON_def import_parsed_array)
next
  assume a: "(\<nexists>kv fs es. JSON_parse contents = Some (JObj kv) \<and> map_of kv ''fields'' = Some (JArr fs)
                          \<and> map_of kv ''entries'' = Some (JArr es))
            \<and> (\<nexists>xs. JSON_parse contents = Some (JArr xs))"
  have "importJSON JSON_parse contents s = s"
  proof (cases "contents = []")
    case True
    with assms show ?thesis
      by (simp add: importJSON_def conforming_def import_parsed_def import_else_def)
  next
    case False
    show ?thesis
    proof (cases "JSON_parse contents")
      case None
      with False show ?thesis by (simp add: importJSON_def)
    next
      case (Some obj)
      with a have "import_parsed obj s = Inl TypeError \<or> import_parsed obj s = Inr s"
        by (intro import_parsed_other) auto
      with Some False show ?thesis by (auto simp: importJSON_def)
    qed
  qed
  then show "fields_st (importJSON JSON_parse contents s) = fields_st s"
    and "entries (importJSON JSON_parse contents s) = entries s" by simp_all
qed

lemma sample_conforming: "conforming sample_parse"
  by (simp add: conforming_def sample_parse_def)

theorem importJSON_contract_witness:
  "conforming sample_parse
   \<and> fields_st (importJSON sample_parse
        ([CHR ''{'', CHR 0x22] @ ''fields'' @ [CHR 0x22] @ '':[],'' @ [CHR 0x22] @ ''entries''
           @ [CHR 0x22] @ '':[{}]}'')
        \<lparr>fields_st = [JNull], entry = [], entries = []\<rparr>) = []
   \<and> entries (importJSON sample_parse
        ([CHR ''{'', CHR 0x22] @ ''fields'' @ [CHR 0x22] @ '':[],'' @ [CHR 0x22] @ ''entries''
           @ [CHR 0x22] @ '':[{}]}'')
        \<lparr>fields_st = [JNull], entry = [], entries = []\<rparr>) = [JObj []]
   \<and> fields_st (importJSON sample_parse ''[{}]'' \<lparr>fields_st = [JNull], entry = [], entries = []\<rparr>) = [JNull]
   \<and> entries (importJSON sample_parse ''[{}]'' \<lparr>fields_st = [JNull], entry = [], entries = []\<rparr>) = [JObj []]
   \<and> sample_parse ''{fields'' = None
   \<and> fields_st (importJSON sample_parse ''{fields'' \<lparr>fields_st = [JNull], entry = [], entries = [JNull]\<rparr>) = [JNull]
   \<and> entries (importJSON sample_parse ''{fields'' \<lparr>fields_st = [JNull], entry = [], entries = [JNull]\<rparr>) = [JNull]
   \<and> fields_st (importJSON sample_parse ''null'' \<lparr>fields_st = [JNull], entry = [], entries = [JNull]\<rparr>) = [JNull]
   \<and> entries (importJSON sample_parse ''null'' \<lparr>fields_st = [JNull], entry = [], entries = [JNull]\<rparr>) = [JNull]"
proof -
  define s1 :: RawStore where "s1 = \<lparr>fields_st = [JNull], entry = [], entries = []\<rparr>"
  define s2 :: RawStore where "s2 = \<lparr>fields_st = [JNull], entry = [], entries = [JNull]\<rparr>"
  define t where "t = [CHR ''{'', CHR 0x22] @ ''fields'' @ [CHR 0x22] @ '':[],'' @ [CHR 0x22] @ ''entries''
           @ [CHR 0x22] @ '':[{}]}''"
  have p1: "sample_parse t = Some (JObj [(''fields'', JArr []), (''entries'', JArr [JObj []])])"
    by (simp add: sample_parse_def t_def)
  have p2: "sample_parse ''[{}]'' = Some (JArr [JObj []])"
    by (simp add: sample_parse_def)
  have p3: "sample_parse ''{fields'' = None"
    by (simp add: sample_parse_def)
  have p4: "sample_parse ''null'' = Some JNull"
    by (simp add: sample_parse_def)
  have 1: "fields_st (importJSON sample_parse t s1) = [] \<and> entries (importJSON sample_parse t s1) = [JObj []]"
    using importJSON_contract [OF sample_conforming, where contents = t
        and kv = "[(''fields'', JArr []), (''entries'', JArr [JObj []])]"
        and fs = "[]" and es = "[JObj []]" and s = s1] p1 by simp
  have 2: "fields_st (importJSON sample_parse ''[{}]'' s1) = [JNull]
           \<and> entries (importJSON sample_parse ''[{}]'' s1) = [JObj []]"
    using importJSON_contract [OF sample_conforming, where contents = "''[{}]''" and xs = "[JObj []]" and s = s1] p2
    by (simp add: s1_def)
  have 3: "fields_st (importJSON sample_parse ''{fields'' s2) = [JNull]
           \<and> entries (importJSON sample_parse ''{fields'' s2) = [JNull]"
    using importJSON_contract [OF sample_conforming, where contents = "''{fields''" and s = s2] p3
    by (simp add: s2_def)
  have 4: "fields_st (importJSON sample_parse ''null'' s2) = [JNull]
           \<and> entries (importJSON sample_parse ''null'' s2) = [JNull]"
    using importJSON_contract [OF sample_conforming, where contents = "''null''" and s = s2] p4
    by (simp add: s2_def)
  show ?thesis using 1 2 3 4 p3 sample_conforming unfolding s1_def s2_def t_def by simp
qed

subsection \<open>\<open>toCSV\<close>\<close>

lemma replaceAll_quote_eq: "replaceAll_quote v = double_quotes v"
  by (induction v) (simp_all add: replaceAll_quote_def)

lemma set_double_quotes: "set (double_quotes v) = set v"
  by (induction v) auto

lemma escape_Str: "escape (Str v) = Inr (csv_value_spec v)"
  by (auto simp: escape_def quote_if_special_def test_special_def csv_value_spec_def
      replaceAll_quote_eq set_double_quotes)

lemma escape_read:
  "get_prop row h \<noteq> Inherited \<Longrightarrow>
   escape (nullish_default (get_prop row h)) = Inr (csv_value_spec (value_or_empty row h))"
  by (cases "map_of row h")
     (auto simp: get_prop_def nullish_default_def value_or_empty_def escape_Str split: if_splits)

lemma collect_Inr: "collect (map (\<lambda>x. Inr (f x)) xs) = Inr (map f xs)"
  by (induction xs) simp_all

lemma row_line_strings:
  assumes "\<forall>h \<in> set hs. get_prop row h \<noteq> Inherited"
  shows "row_line hs row = Inr (join '','' (map (\<lambda>h. csv_value_spec (value_or_empty row h)) hs))"
proof -
  have "map (\<lambda>h. escape (nullish_default (get_prop row h))) hs
          = map (\<lambda>h. Inr (csv_value_spec (value_or_empty row h))) hs"
    using assms by (intro map_cong refl) (simp add: escape_read)
  then have "collect (map (\<lambda>h. escape (nullish_default (get_prop row h))) hs)
          = Inr (map (\<lambda>h. csv_value_spec (value_or_empty row h)) hs)"
    by (simp only: collect_Inr)
  then show ?thesis by (simp add: row_line_def)
qed

lemma toCSV_strings:
  assumes "\<forall>row \<in> set (r # rs). \<forall>h \<in> set (object_keys r). get_prop row h \<noteq> Inherited"
  shows "toCSV (r # rs) = Inr (encode_spec (r # rs))"
proof -
  let ?line = "\<lambda>row. join '','' (map (\<lambda>h. csv_value_spec (value_or_empty row h)) (object_keys r))"
  have "map (row_line (object_keys r)) (r # rs) = map (\<lambda>row. Inr (?line row)) (r # rs)"
  proof (intro map_cong refl)
    fix row assume "row \<in> set (r # rs)"
    with assms have "\<forall>h \<in> set (object_keys r). get_prop row h \<noteq> Inherited" by blast
    then show "row_line (object_keys r) row = Inr (?line row)" by (rule row_line_strings)
  qed
  then have "collect (map (row_line (object_keys r)) (r # rs)) = Inr (map ?line (r # rs))"
    by (simp only: collect_Inr)
  then show ?thesis by (simp add: toCSV_def encode_spec_def Let_def)
qed

text \<open>
  Where every read \<^verbatim>\<open>row[h]\<close> of a header yields a string or \<^verbatim>\<open>undefined\<close> (uniform
  records are such), \<open>toCSV\<close> is the encoding of the specification: the header row is
  the key order of the first record; each value, an absent one taken as the empty
  string, has its double quotes doubled and is wrapped in double quotes iff it contains
  a comma, a double quote or a line feed; fields are joined by commas and rows by a line
  feed, with none after the last row.
\<close>

lemma toCSV_contract:
  "toCSV [] = Inr []
   \<and> ((\<forall>row \<in> set (r # rs). \<forall>h \<in> set (object_keys r). get_prop row h \<noteq> Inherited)
        \<longrightarrow> toCSV (r # rs)
            = Inr (join [LF]
                (join '','' (object_keys r)
                 # map (\<lambda>row. join '','' (map (\<lambda>h. csv_value_spec (value_or_empty row h)) (object_keys r)))
                     (r # rs))))"
  using toCSV_strings [of r rs] by (simp add: toCSV_def encode_spec_def)

lemma toCSV_contract_example:
  "get_prop [(''a'', ''1''), (''b'', ''x,y'')] ''a'' = Str ''1''
   \<and> get_prop [(''a'', ''1''), (''b'', ''x,y'')] ''b'' = Str ''x,y''
   \<and> get_prop [(''a'', [CHR ''h'', DQ, CHR ''i''])] ''a'' = Str [CHR ''h'', DQ, CHR ''i'']
   \<and> get_prop [(''a'', [CHR ''h'', DQ, CHR ''i''])] ''b'' = Undefined
   \<and> toCSV [[(''a'', ''1''), (''b'', ''x,y'')], [(''a'', [CHR ''h'', DQ, CHR ''i''])]]
       = Inr (''a,b'' @ [LF] @ ''1,'' @ [DQ] @ ''x,y'' @ [DQ, LF, DQ] @ ''h'' @ [DQ, DQ] @ ''i'' @ [DQ] @ '','')"
proof -
  have h: "\<forall>row \<in> set [[(''a'', ''1''), (''b'', ''x,y'')], [(''a'', [CHR ''h'', DQ, CHR ''i''])]].
      \<forall>h \<in> set (object_keys [(''a'', ''1''), (''b'', ''x,y'')]). get_prop row h \<noteq> Inherited"
    by (simp add: object_keys_def get_prop_def object_prototype_names_def)
  have g: "get_prop [(''a'', ''1''), (''b'', ''x,y'')] ''a'' = Str ''1''
   \<and> get_prop [(''a'', ''1''), (''b'', ''x,y'')] ''b'' = Str ''x,y''
   \<and> get_prop [(''a'', [CHR ''h'', DQ, CHR ''i''])] ''a'' = Str [CHR ''h'', DQ, CHR ''i'']
   \<and> get_prop [(''a'', [CHR ''h'', DQ, CHR ''i''])] ''b'' = Undefined"
    by (simp add: get_prop_def object_prototype_names_def)
  show ?thesis
    using toCSV_contract [of "[(''a'', ''1''), (''b'', ''x,y'')]" "[[(''a'', [CHR ''h'', DQ, CHR ''i''])]]"] h g
    by (simp add: object_keys_def csv_value_spec_def value_or_empty_def)
qed


subsection \<open>The lines of the encoding\<close>

lemma set_join: "set (join sep xs) \<subseteq> set sep \<union> \<Union> (set ` set xs)"
  by (induction sep xs rule: join.induct) auto

lemma split_on_no_sep: "c \<notin> set x \<Longrightarrow> split_on c x = [x]"
  by (induction x) auto

lemma split_on_append_sep: "c \<notin> set x \<Longrightarrow> split_on c (x @ c # rest) = x # split_on c rest"
  by (induction x) auto

lemma split_on_join:
  "xs \<noteq> [] \<Longrightarrow> \<forall>x \<in> set xs. c \<notin> set x \<Longrightarrow> split_on c (join [c] xs) = xs"
proof (induction "[c]" xs rule: join.induct)
  case 1
  then show ?case by simp
next
  case (2 x)
  then show ?case by (simp add: split_on_no_sep)
next
  case (3 x y ys)
  then show ?case by (simp add: split_on_append_sep)
qed

lemma sublist_join: "x \<in> set xs \<Longrightarrow> sublist x (join sep xs)"
proof (induction sep xs rule: join.induct)
  case (1 sep)
  then show ?case by simp
next
  case (2 sep y)
  then show ?case by simp
next
  case (3 sep y z zs)
  show ?case
  proof (cases "x = y")
    case True
    then show ?thesis by simp
  next
    case False
    with 3 have "sublist x (join sep (z # zs))" by simp
    then have "sublist x ((y @ sep) @ join sep (z # zs))"
      by (rule sublist_append [THEN iffD2, OF disjI2, OF disjI1])
    then show ?thesis by simp
  qed
qed

lemma set_csv_value_spec: "set (csv_value_spec v) \<subseteq> insert DQ (set v)"
  by (auto simp: csv_value_spec_def set_double_quotes)

lemma value_or_empty_chars: "set (value_or_empty row h) \<subseteq> \<Union> (set ` snd ` set row)"
proof (cases "map_of row h")
  case None
  then show ?thesis by (simp add: value_or_empty_def)
next
  case (Some v)
  then have "(h, v) \<in> set row" by (rule map_of_SomeD)
  with Some show ?thesis by (force simp: value_or_empty_def)
qed

lemma own_read: "h \<in> set (object_keys row) \<Longrightarrow> get_prop row h \<noteq> Inherited"
  by (cases "map_of row h") (auto simp: get_prop_def map_of_None_keys)

lemma join_Cons: "ys \<noteq> [] \<Longrightarrow> join sep (x # ys) = x @ sep @ join sep ys"
  by (cases ys) simp_all

lemma hd_split_on: "c \<notin> set x \<Longrightarrow> hd (split_on c (x @ c # rest)) = x"
  by (simp add: split_on_append_sep)

lemma sublist_join_line: "sublist a l \<Longrightarrow> l \<in> set ls \<Longrightarrow> sublist a (join sep ls)"
  using sublist_join [of l ls sep] by (blast intro: sublist_order.order.trans)

text \<open>
  Claim C5, as the code has it. For a list of records that is not empty and whose
  records have the key set of the first, \<open>toCSV\<close> returns an encoding in which every
  value with a comma stands wrapped in double quotes (its own double quotes doubled).
  When no key contains a line feed, the first line of the encoding split at line feeds
  is the keys of the first record in their order, joined by commas. When moreover no
  value contains a line feed, the split has one line more than there are records, and
  the quoted value stands in the line of its record.
\<close>

theorem toCSV_lines:
  assumes "rows \<noteq> []"
    and "\<forall>row \<in> set rows. set (object_keys row) = set (object_keys (hd rows))"
  shows "case toCSV rows of
           Inl e \<Rightarrow> False
         | Inr out \<Rightarrow>
             (\<forall>i < length rows. \<forall>k v. map_of (rows ! i) k = Some v \<and> CHR '','' \<in> set v
                \<longrightarrow> sublist ([DQ] @ double_quotes v @ [DQ]) out)
             \<and> ((\<forall>k \<in> set (object_keys (hd rows)). LF \<notin> set k)
                \<longrightarrow> hd (split_on LF out) = join '','' (object_keys (hd rows)))
             \<and> ((\<forall>row \<in> set rows. \<forall>kv \<in> set row. LF \<notin> set (fst kv) \<and> LF \<notin> set (snd kv))
                \<longrightarrow> length (split_on LF out) = length rows + 1
                    \<and> (\<forall>i < length rows. \<forall>k v. map_of (rows ! i) k = Some v \<and> CHR '','' \<in> set v
                         \<longrightarrow> sublist ([DQ] @ double_quotes v @ [DQ]) (split_on LF out ! Suc i)))"
proof -
  from assms(1) obtain r rs where rows: "rows = r # rs" by (cases rows) auto
  let ?hs = "object_keys r"
  let ?line = "\<lambda>row. join '','' (map (\<lambda>h. csv_value_spec (value_or_empty row h)) ?hs)"
  let ?ls = "join '','' ?hs # map ?line rows"
  let ?out = "join [LF] ?ls"
  have uni: "set (object_keys row) = set ?hs" if "row \<in> set rows" for row
  proof -
    from assms(2) that have "set (object_keys row) = set (object_keys (hd rows))" by blast
    then show ?thesis by (simp only: rows list.sel)
  qed
  have "\<forall>row \<in> set (r # rs). \<forall>h \<in> set ?hs. get_prop row h \<noteq> Inherited"
  proof (intro ballI)
    fix row h assume "row \<in> set (r # rs)" and h: "h \<in> set ?hs"
    then have "row \<in> set rows" by (simp only: rows)
    from uni [OF this] h have "h \<in> set (object_keys row)" by blast
    then show "get_prop row h \<noteq> Inherited" by (rule own_read)
  qed
  then have out: "toCSV rows = Inr ?out"
    unfolding rows by (simp add: toCSV_strings encode_spec_def)
  have quoted: "sublist ([DQ] @ double_quotes v @ [DQ]) (?line (rows ! i))"
    if "i < length rows" "map_of (rows ! i) k = Some v" "CHR '','' \<in> set v" for i k v
  proof -
    from that(1) have mem: "rows ! i \<in> set rows" by simp
    from that(2) have "k \<in> set (object_keys (rows ! i))"
      using map_of_None_keys [of "rows ! i" k] by auto
    with uni [OF mem] have k: "k \<in> set ?hs" by blast
    have "csv_value_spec (value_or_empty (rows ! i) k) = [DQ] @ double_quotes v @ [DQ]"
      using that(2,3) by (simp add: csv_value_spec_def value_or_empty_def)
    with k have "[DQ] @ double_quotes v @ [DQ]
                   \<in> set (map (\<lambda>h. csv_value_spec (value_or_empty (rows ! i) h)) ?hs)"
      by force
    then show ?thesis by (rule sublist_join)
  qed
  have part1: "\<forall>i < length rows. \<forall>k v. map_of (rows ! i) k = Some v \<and> CHR '','' \<in> set v
                \<longrightarrow> sublist ([DQ] @ double_quotes v @ [DQ]) ?out"
  proof (intro allI impI)
    fix i k v assume i: "i < length rows" and kv: "map_of (rows ! i) k = Some v \<and> CHR '','' \<in> set v"
    then have "sublist ([DQ] @ double_quotes v @ [DQ]) (?line (rows ! i))" using quoted by blast
    moreover from i have "?line (rows ! i) \<in> set ?ls" by simp
    ultimately show "sublist ([DQ] @ double_quotes v @ [DQ]) ?out" by (rule sublist_join_line)
  qed
  have part2: "hd (split_on LF ?out) = join '','' (object_keys (hd rows))"
    if keys: "\<forall>k \<in> set (object_keys (hd rows)). LF \<notin> set k"
  proof -
    have hdr: "LF \<notin> set (join '','' ?hs)"
    proof
      assume "LF \<in> set (join '','' ?hs)"
      with set_join [of "'',''" ?hs] obtain h where "h \<in> set ?hs" "LF \<in> set h" by auto
      with keys show False by (simp add: rows)
    qed
    have "map ?line rows \<noteq> []" using assms(1) by simp
    then have "?out = join '','' ?hs @ [LF] @ join [LF] (map ?line rows)" by (rule join_Cons)
    then have e: "?out = join '','' ?hs @ LF # join [LF] (map ?line rows)" by simp
    have "hd (split_on LF (join '','' ?hs @ LF # join [LF] (map ?line rows))) = join '','' ?hs"
      by (rule hd_split_on [OF hdr])
    then have "hd (split_on LF ?out) = join '','' ?hs" by (simp only: e)
    then show ?thesis by (simp only: rows list.sel)
  qed
  have part3: "length (split_on LF ?out) = length rows + 1
        \<and> (\<forall>i < length rows. \<forall>k v. map_of (rows ! i) k = Some v \<and> CHR '','' \<in> set v
              \<longrightarrow> sublist ([DQ] @ double_quotes v @ [DQ]) (split_on LF ?out ! Suc i))"
    if free: "\<forall>row \<in> set rows. \<forall>kv \<in> set row. LF \<notin> set (fst kv) \<and> LF \<notin> set (snd kv)"
  proof -
    have hdr: "LF \<notin> set (join '','' ?hs)"
    proof
      assume "LF \<in> set (join '','' ?hs)"
      with set_join [of "'',''" ?hs] obtain h where "h \<in> set ?hs" "LF \<in> set h" by auto
      then obtain v where "(h, v) \<in> set r" by (auto simp: object_keys_def)
      then have "(h, v) \<in> set (hd rows)" by (simp only: rows list.sel)
      moreover have "hd rows \<in> set rows" using assms(1) by simp
      ultimately show False using free \<open>LF \<in> set h\<close> by fastforce
    qed
    have vals: "LF \<notin> set (?line row)" if "row \<in> set rows" for row
    proof
      assume "LF \<in> set (?line row)"
      with set_join [of "'',''" "map (\<lambda>h. csv_value_spec (value_or_empty row h)) ?hs"]
      obtain h where "LF \<in> set (csv_value_spec (value_or_empty row h))" by auto
      with set_csv_value_spec [of "value_or_empty row h"]
      have "LF \<in> set (value_or_empty row h)" by auto
      with value_or_empty_chars [of row h] obtain kv where "kv \<in> set row" "LF \<in> set (snd kv)"
        by auto
      with free that show False by blast
    qed
    have split: "split_on LF ?out = ?ls"
      using hdr vals by (intro split_on_join) auto
    have l: "length ?ls = length rows + 1" by simp
    have c: "\<forall>i < length rows. \<forall>k v. map_of (rows ! i) k = Some v \<and> CHR '','' \<in> set v
             \<longrightarrow> sublist ([DQ] @ double_quotes v @ [DQ]) (?ls ! Suc i)"
    proof (intro allI impI)
      fix i k v assume i: "i < length rows" and "map_of (rows ! i) k = Some v \<and> CHR '','' \<in> set v"
      then have "sublist ([DQ] @ double_quotes v @ [DQ]) (?line (rows ! i))" using quoted by blast
      with i show "sublist ([DQ] @ double_quotes v @ [DQ]) (?ls ! Suc i)" by simp
    qed
    show ?thesis unfolding split using l c by blast
  qed
  show ?thesis
    unfolding out sum.case using part1 part2 part3 by blast
qed

theorem toCSV_lines_witness:
  "toCSV [[(''a'', ''1''), (''b'', ''x,y'')], [(''b'', ''2''), (''a'', ''3'')]]
     = Inr (''a,b'' @ [LF] @ ''1,'' @ [DQ] @ ''x,y'' @ [DQ, LF] @ ''3,2'')
   \<and> sublist ([DQ] @ ''x,y'' @ [DQ]) (''a,b'' @ [LF] @ ''1,'' @ [DQ] @ ''x,y'' @ [DQ, LF] @ ''3,2'')
   \<and> hd (split_on LF (''a,b'' @ [LF] @ ''1,'' @ [DQ] @ ''x,y'' @ [DQ, LF] @ ''3,2'')) = ''a,b''
   \<and> length (split_on LF (''a,b'' @ [LF] @ ''1,'' @ [DQ] @ ''x,y'' @ [DQ, LF] @ ''3,2'')) = 3
   \<and> sublist ([DQ] @ ''x,y'' @ [DQ])
        (split_on LF (''a,b'' @ [LF] @ ''1,'' @ [DQ] @ ''x,y'' @ [DQ, LF] @ ''3,2'') ! 1)
   \<and> toCSV [[(''a'', [CHR ''x'', LF, CHR ''y'']), (''b'', ''p,q'')]]
     = Inr (''a,b'' @ [LF, DQ, CHR ''x'', LF, CHR ''y'', DQ] @ '','' @ [DQ] @ ''p,q'' @ [DQ])
   \<and> sublist ([DQ] @ ''p,q'' @ [DQ])
        (''a,b'' @ [LF, DQ, CHR ''x'', LF, CHR ''y'', DQ] @ '','' @ [DQ] @ ''p,q'' @ [DQ])
   \<and> hd (split_on LF (''a,b'' @ [LF, DQ, CHR ''x'', LF, CHR ''y'', DQ] @ '','' @ [DQ] @ ''p,q'' @ [DQ]))
       = ''a,b''"
proof -
  define rows :: "Entry list" where
    "rows = [[(''a'', ''1''), (''b'', ''x,y'')], [(''b'', ''2''), (''a'', ''3'')]]"
  define out where "out = ''a,b'' @ [LF] @ ''1,'' @ [DQ] @ ''x,y'' @ [DQ, LF] @ ''3,2''"
  have 1: "rows \<noteq> []" by (simp add: rows_def)
  have 2: "\<forall>row \<in> set rows. set (object_keys row) = set (object_keys (hd rows))"
    by (auto simp: rows_def object_keys_def)
  have 3: "\<forall>row \<in> set rows. \<forall>kv \<in> set row. LF \<notin> set (fst kv) \<and> LF \<notin> set (snd kv)"
    by (simp add: rows_def)
  have 4: "\<forall>k \<in> set (object_keys (hd rows)). LF \<notin> set k"
    by (simp add: rows_def object_keys_def)
  have o: "toCSV rows = Inr out"
    by (simp add: rows_def out_def toCSV_def row_line_def object_keys_def get_prop_def
        nullish_default_def escape_def quote_if_special_def test_special_def replaceAll_quote_def)
  have m: "map_of (rows ! 0) ''b'' = Some ''x,y'' \<and> CHR '','' \<in> set ''x,y''"
    by (simp add: rows_def)
  have len: "length rows = 2" by (simp add: rows_def)
  have keys: "join '','' (object_keys (hd rows)) = ''a,b''" by (simp add: rows_def object_keys_def)
  have all: "(\<forall>i < length rows. \<forall>k v. map_of (rows ! i) k = Some v \<and> CHR '','' \<in> set v
                \<longrightarrow> sublist ([DQ] @ double_quotes v @ [DQ]) out)
             \<and> ((\<forall>k \<in> set (object_keys (hd rows)). LF \<notin> set k)
                \<longrightarrow> hd (split_on LF out) = join '','' (object_keys (hd rows)))
             \<and> ((\<forall>row \<in> set rows. \<forall>kv \<in> set row. LF \<notin> set (fst kv) \<and> LF \<notin> set (snd kv))
                \<longrightarrow> length (split_on LF out) = length rows + 1
                    \<and> (\<forall>i < length rows. \<forall>k v. map_of (rows ! i) k = Some v \<and> CHR '','' \<in> set v
                         \<longrightarrow> sublist ([DQ] @ double_quotes v @ [DQ]) (split_on LF out ! Suc i)))"
    using toCSV_lines [OF 1 2] unfolding o sum.case by this
  from all have "0 < length rows \<longrightarrow> (map_of (rows ! 0) ''b'' = Some ''x,y'' \<and> CHR '','' \<in> set ''x,y''
                  \<longrightarrow> sublist ([DQ] @ double_quotes ''x,y'' @ [DQ]) out)"
    by blast
  with m len have a: "sublist ([DQ] @ ''x,y'' @ [DQ]) out" by simp
  from all 4 keys have b: "hd (split_on LF out) = ''a,b''" by simp
  from all 3 have c3: "length (split_on LF out) = length rows + 1
       \<and> (\<forall>i < length rows. \<forall>k v. map_of (rows ! i) k = Some v \<and> CHR '','' \<in> set v
             \<longrightarrow> sublist ([DQ] @ double_quotes v @ [DQ]) (split_on LF out ! Suc i))"
    by blast
  with len have c: "length (split_on LF out) = 3" by simp
  from c3 have "0 < length rows \<longrightarrow> (map_of (rows ! 0) ''b'' = Some ''x,y'' \<and> CHR '','' \<in> set ''x,y''
                  \<longrightarrow> sublist ([DQ] @ double_quotes ''x,y'' @ [DQ]) (split_on LF out ! Suc 0))"
    by blast
  with m len have d: "sublist ([DQ] @ ''x,y'' @ [DQ]) (split_on LF out ! 1)" by simp
  define rows2 :: "Entry list" where
    "rows2 = [[(''a'', [CHR ''x'', LF, CHR ''y'']), (''b'', ''p,q'')]]"
  define out2 where
    "out2 = ''a,b'' @ [LF, DQ, CHR ''x'', LF, CHR ''y'', DQ] @ '','' @ [DQ] @ ''p,q'' @ [DQ]"
  have 5: "rows2 \<noteq> []" by (simp add: rows2_def)
  have 6: "\<forall>row \<in> set rows2. set (object_keys row) = set (object_keys (hd rows2))"
    by (simp add: rows2_def)
  have 7: "\<forall>k \<in> set (object_keys (hd rows2)). LF \<notin> set k"
    by (simp add: rows2_def object_keys_def)
  have o2: "toCSV rows2 = Inr out2"
    by (simp add: rows2_def out2_def toCSV_def row_line_def object_keys_def get_prop_def
        nullish_default_def escape_def quote_if_special_def test_special_def replaceAll_quote_def)
  have m2: "map_of (rows2 ! 0) ''b'' = Some ''p,q'' \<and> CHR '','' \<in> set ''p,q''"
    by (simp add: rows2_def)
  have len2: "length rows2 = 1" by (simp add: rows2_def)
  have keys2: "join '','' (object_keys (hd rows2)) = ''a,b''"
    by (simp add: rows2_def object_keys_def)
  have all2: "(\<forall>i < length rows2. \<forall>k v. map_of (rows2 ! i) k = Some v \<and> CHR '','' \<in> set v
                \<longrightarrow> sublist ([DQ] @ double_quotes v @ [DQ]) out2)
             \<and> ((\<forall>k \<in> set (object_keys (hd rows2)). LF \<notin> set k)
                \<longrightarrow> hd (split_on LF out2) = join '','' (object_keys (hd rows2)))
             \<and> ((\<forall>row \<in> set rows2. \<forall>kv \<in> set row. LF \<notin> set (fst kv) \<and> LF \<notin> set (snd kv))
                \<longrightarrow> length (split_on LF out2) = length rows2 + 1
                    \<and> (\<forall>i < length rows2. \<forall>k v. map_of (rows2 ! i) k = Some v \<and> CHR '','' \<in> set v
                         \<longrightarrow> sublist ([DQ] @ double_quotes v @ [DQ]) (split_on LF out2 ! Suc i)))"
    using toCSV_lines [OF 5 6] unfolding o2 sum.case by this
  from all2 have "0 < length rows2 \<longrightarrow> (map_of (rows2 ! 0) ''b'' = Some ''p,q'' \<and> CHR '','' \<in> set ''p,q''
                  \<longrightarrow> sublist ([DQ] @ double_quotes ''p,q'' @ [DQ]) out2)"
    by blast
  with m2 len2 have e: "sublist ([DQ] @ ''p,q'' @ [DQ]) out2" by simp
  from all2 7 keys2 have f: "hd (split_on LF out2) = ''a,b''" by simp
  from o a b c d o2 e f show ?thesis unfolding rows_def out_def rows2_def out2_def by (intro conjI)
qed

text \<open>
  The claim as stated fails where a line feed stands in a value or in a key. A value
  with a line feed is quoted and keeps it: the encoding of one record splits into three
  lines. A key with a line feed goes into the header row as it is: the first line of the
  split is a part of the key.
\<close>

theorem toCSV_newline_in_value:
  "toCSV [[(''a'', [CHR ''x'', LF, CHR ''y''])]] = Inr [CHR ''a'', LF, DQ, CHR ''x'', LF, CHR ''y'', DQ]
   \<and> split_on LF [CHR ''a'', LF, DQ, CHR ''x'', LF, CHR ''y'', DQ] = [''a'', [DQ, CHR ''x''], [CHR ''y'', DQ]]
   \<and> length (split_on LF [CHR ''a'', LF, DQ, CHR ''x'', LF, CHR ''y'', DQ])
        \<noteq> length [[(''a'', [CHR ''x'', LF, CHR ''y''])]] + 1
   \<and> toCSV [[([CHR ''a'', LF, CHR ''b''], ''1'')]] = Inr [CHR ''a'', LF, CHR ''b'', LF, CHR ''1'']
   \<and> split_on LF [CHR ''a'', LF, CHR ''b'', LF, CHR ''1''] = [''a'', ''b'', ''1'']
   \<and> hd (split_on LF [CHR ''a'', LF, CHR ''b'', LF, CHR ''1''])
        \<noteq> join '','' (object_keys (hd [[([CHR ''a'', LF, CHR ''b''], ''1'')]]))"
  by (simp add: toCSV_def row_line_def object_keys_def get_prop_def
        nullish_default_def escape_def quote_if_special_def test_special_def replaceAll_quote_def
        object_prototype_names_def)

subsection \<open>\<open>parseBookmarkletPairs\<close>\<close>

lemma parse_skips_blank_and_empty_selector:
  "parseBookmarkletPairs (''#a = 1'' @ [CR, LF, LF] @ ''= value'' @ [LF] @ ''  #address : x y  '')
     = [\<lparr>selector = ''#a'', value_p = ''1''\<rparr>, \<lparr>selector = ''#address'', value_p = ''x y''\<rparr>]"
  by code_simp

text \<open>
  Claim C4. The line \<^verbatim>\<open>input[name=email] = user@example.com\<close> (the example the page
  itself shows for the format) should parse to the selector \<^verbatim>\<open>input[name=email]\<close> and the
  value \<^verbatim>\<open>user@example.com\<close>. The code splits the line at every \<open>=\<close> and \<open>:\<close>, the one
  inside the attribute selector included, and joins the pieces after the first with
  \<open>": "\<close>: the selector it returns is \<^verbatim>\<open>input[name\<close> and the value \<^verbatim>\<open>email]: user@example.com\<close>.
\<close>

theorem parse_splits_attribute_selector:
  "parseBookmarkletPairs ''input[name=email] = user@example.com''
     = [\<lparr>selector = ''input[name'', value_p = ''email]: user@example.com''\<rparr>]"
  by code_simp

subsection \<open>The emitted script\<close>

lemma run_script_javascript: "parses b \<Longrightarrow> run_script b v el = run_loop_body b v el"
  by (simp add: run_script_def)

lemma checked_assignment:
  "run_assignment (Assign (Member ''checked'') TruthyFlag) v el = Inr el' \<Longrightarrow>
   map_of (properties el') ''checked''
     = Some (Flag (v = ''true'' \<or> v = ''1'' \<or> toLowerCase v = ''yes''))"
  by (auto simp: set_property_def)

lemma value_assignment:
  "run_assignment (Assign (Member ''value'') PairValue) v el = Inr el' \<Longrightarrow>
   map_of (properties el') ''value'' = Some (Txt v)"
  by (auto simp: set_property_def)

text \<open>
  Claim C6. For a checkbox the script should set \<open>checked\<close> to true when the value is
  \<open>yes\<close>, and for a text input it should assign the value. The text that
  \<open>buildBookmarklet\<close> emits has the assertions \<^verbatim>\<open>(el as HTMLInputElement)\<close> and
  \<^verbatim>\<open>(el as HTMLElement)\<close> in it and does not parse as JavaScript: the click raises
  \<^verbatim>\<open>SyntaxError\<close>, no statement runs, the unchecked box stays unchecked and the input
  keeps its value.
\<close>

theorem emitted_script_does_not_parse:
  "\<not> parses emitted_loop_body
   \<and> run_script emitted_loop_body ''yes''
        \<lparr>element_class = HTMLInputElement, type_attribute = Some ''checkbox'',
         properties = [(''checked'', Flag False)]\<rparr> = Inl SyntaxError
   \<and> map_of (properties (element_after_click ''yes''
        \<lparr>element_class = HTMLInputElement, type_attribute = Some ''checkbox'',
         properties = [(''checked'', Flag False)]\<rparr>)) ''checked'' = Some (Flag False)
   \<and> run_script emitted_loop_body ''ram@example.com''
        \<lparr>element_class = HTMLInputElement, type_attribute = Some ''email'',
         properties = [(''value'', Txt [])]\<rparr> = Inl SyntaxError
   \<and> map_of (properties (element_after_click ''ram@example.com''
        \<lparr>element_class = HTMLInputElement, type_attribute = Some ''email'',
         properties = [(''value'', Txt [])]\<rparr>)) ''value'' = Some (Txt [])"
  by (simp add: parses_def emitted_loop_body_def run_script_def element_after_click_def)

end
